theory Spec2Isabelle
  imports Complex_Main
begin

section \<open>Numbers, errors and the Python primitives the program uses\<close>

text \<open>
  The program \<^verbatim>\<open>wolf3d_main.py\<close> computes with Python floats. They are modelled
  here by the type \<open>real\<close>: every arithmetic operation is the exact one, \<open>math.sin\<close>,
  \<open>math.cos\<close>, \<open>math.tan\<close> are the real functions, and \<open>math.pi\<close> is \<open>pi\<close>. Rounding,
  infinities and NaN are outside the model. Python's unbounded integers are \<open>int\<close>.
  Each operation of the source that can raise is a function into \<open>py_error + 'a\<close>.
\<close>

datatype py_error = IndexError | ZeroDivisionError

text \<open>\<^verbatim>\<open>int(v)\<close> on a float: truncation toward zero.\<close>

definition py_int :: "real \<Rightarrow> int" where
  "py_int v = (if 0 \<le> v then \<lfloor>v\<rfloor> else \<lceil>v\<rceil>)"

text \<open>\<^verbatim>\<open>a / b\<close> on floats raises on a zero divisor.\<close>

definition py_div :: "real \<Rightarrow> real \<Rightarrow> py_error + real" where
  "py_div a b = (if b = 0 then Inl ZeroDivisionError else Inr (a / b))"

text \<open>\<^verbatim>\<open>a // b\<close> on floats, used by the source with the literal divisors 2 and 4 only.\<close>

definition py_floordiv :: "real \<Rightarrow> real \<Rightarrow> real" where
  "py_floordiv a b = of_int \<lfloor>a / b\<rfloor>"

text \<open>\<^verbatim>\<open>a % b\<close> on floats for a positive divisor: the result has the divisor's sign.\<close>

definition py_fmod :: "real \<Rightarrow> real \<Rightarrow> real" where
  "py_fmod a b = a - b * of_int \<lfloor>a / b\<rfloor>"

text \<open>
  \<^verbatim>\<open>xs[k]\<close> on a list: an index from \<open>-len(xs)\<close> to \<open>-1\<close> counts from the end, and
  an index beyond either end raises \<^verbatim>\<open>IndexError\<close>.
\<close>

definition py_index :: "'a list \<Rightarrow> int \<Rightarrow> py_error + 'a" where
  "py_index xs k =
     (if 0 \<le> k \<and> k < int (length xs) then Inr (xs ! nat k)
      else if - int (length xs) \<le> k \<and> k < 0 then Inr (xs ! nat (int (length xs) + k))
      else Inl IndexError)"

text \<open>\<^verbatim>\<open>range(start, stop, step)\<close> for a positive step, and \<^verbatim>\<open>range(start, stop)\<close>.\<close>

definition py_range3 :: "int \<Rightarrow> int \<Rightarrow> int \<Rightarrow> int list" where
  "py_range3 start stop step =
     map (\<lambda>k. start + int k * step) [0 ..< nat ((stop - start + step - 1) div step)]"

definition py_range2 :: "int \<Rightarrow> int \<Rightarrow> int list" where
  "py_range2 start stop = [start .. stop - 1]"

text \<open>\<^verbatim>\<open>math.hypot\<close> and \<^verbatim>\<open>math.atan2\<close> (signed zeros are outside the model).\<close>

definition hypot :: "real \<Rightarrow> real \<Rightarrow> real" where
  "hypot a b = sqrt (a * a + b * b)"

definition atan2 :: "real \<Rightarrow> real \<Rightarrow> real" where
  "atan2 b a =
     (if 0 < a then arctan (b / a)
      else if a < 0 then (if 0 \<le> b then arctan (b / a) + pi else arctan (b / a) - pi)
      else if 0 < b then pi / 2
      else if b < 0 then - (pi / 2)
      else 0)"

section \<open>Constants and the map\<close>

definition SCREEN_WIDTH :: int where "SCREEN_WIDTH = 1366"
definition SCREEN_HEIGHT :: int where "SCREEN_HEIGHT = 728"
definition MAP_WIDTH :: int where "MAP_WIDTH = 8"
definition MAP_HEIGHT :: int where "MAP_HEIGHT = 8"
definition TILE_SIZE :: int where "TILE_SIZE = 64"
definition FOV :: real where "FOV = pi / 3"
definition NUM_RAYS :: int where "NUM_RAYS = 240"
definition MAX_DEPTH :: int where "MAX_DEPTH = 800"
definition DELTA_ANGLE :: real where "DELTA_ANGLE = FOV / of_int NUM_RAYS"
definition DISTANCE :: real where "DISTANCE = of_int NUM_RAYS / (2 * tan (FOV / 2))"
definition PROJ_COEFF :: real where "PROJ_COEFF = 3 * DISTANCE * of_int TILE_SIZE"
definition SCALE :: int where "SCALE = SCREEN_WIDTH div NUM_RAYS"

text \<open>The map: 1 is a wall, 0 is empty; \<open>game_map ! j ! i\<close> is row \<open>j\<close>, column \<open>i\<close>.\<close>

definition game_map :: "int list list" where
  "game_map =
     [[1,1,1,1,1,1,1,1],
      [1,0,0,0,0,0,0,1],
      [1,0,1,0,1,0,0,1],
      [1,0,1,0,1,0,0,1],
      [1,0,0,0,0,0,0,1],
      [1,0,1,1,1,1,0,1],
      [1,0,0,0,0,0,0,1],
      [1,1,1,1,1,1,1,1]]"

definition player_speed :: real where "player_speed = 2"

section \<open>Walkability\<close>

text \<open>
  \<^verbatim>\<open>can_move(x, y)\<close>: the indices are checked against the lengths of the map before
  the map is read, so the function cannot raise.
\<close>

definition can_move :: "real \<Rightarrow> real \<Rightarrow> bool" where
  "can_move x y =
     (let i = py_int (x / of_int TILE_SIZE);
          j = py_int (y / of_int TILE_SIZE)
      in if (0 \<le> i \<and> i < int (length (game_map ! 0))) \<and> (0 \<le> j \<and> j < int (length game_map))
         then game_map ! nat j ! nat i = 0
         else False)"

section \<open>Wall height\<close>

text \<open>
  \<^verbatim>\<open>wall_height = PROJ_COEFF / (depth + 0.0001)\<close>, the division of line 121 of the
  source, applied there to the depth after the fish-eye correction.
\<close>

definition wall_height :: "real \<Rightarrow> py_error + real" where
  "wall_height depth = py_div PROJ_COEFF (depth + 0.0001)"

section \<open>Line of sight\<close>

text \<open>
  \<^verbatim>\<open>line_of_sight(px, py, ex, ey)\<close>. The number of steps is
  \<^verbatim>\<open>int(distance / 4)\<close>; the loop runs over \<^verbatim>\<open>range(1, steps)\<close> and divides by
  \<open>steps\<close> in its body, which is where a division by zero would be raised.
\<close>

definition los_steps :: "real \<Rightarrow> real \<Rightarrow> real \<Rightarrow> real \<Rightarrow> int" where
  "los_steps px py ex ey = py_int (hypot (ex - px) (ey - py) / 4)"

fun los_loop :: "real \<Rightarrow> real \<Rightarrow> real \<Rightarrow> real \<Rightarrow> int \<Rightarrow> int list \<Rightarrow> py_error + bool" where
  "los_loop px py dx dy steps [] = Inr True"
| "los_loop px py dx dy steps (step # rest) =
     (case py_div (dx * of_int step) (of_int steps) of
        Inl e \<Rightarrow> Inl e
      | Inr qx \<Rightarrow>
         (case py_div (dy * of_int step) (of_int steps) of
            Inl e \<Rightarrow> Inl e
          | Inr qy \<Rightarrow>
             (let x = px + qx; y = py + qy
              in if \<not> can_move x y then Inr False
                 else los_loop px py dx dy steps rest)))"

definition line_of_sight :: "real \<Rightarrow> real \<Rightarrow> real \<Rightarrow> real \<Rightarrow> py_error + bool" where
  "line_of_sight px py ex ey =
     (let dx = ex - px; dy = ey - py; steps = los_steps px py ex ey
      in los_loop px py dx dy steps (py_range2 1 steps))"

section \<open>Enemies\<close>

text \<open>
  The class \<^verbatim>\<open>Enemy\<close> with its fields \<open>x\<close>, \<open>y\<close> and \<open>alive\<close>. The methods read the
  globals \<open>player_pos\<close> and \<open>player_angle\<close>, which are parameters here.
\<close>

record enemy =
  enemy_x :: real
  enemy_y :: real
  alive :: bool

definition Enemy :: "real \<Rightarrow> real \<Rightarrow> enemy" where
  "Enemy x y = \<lparr>enemy_x = x, enemy_y = y, alive = True\<rparr>"

definition distance_to_player :: "real \<times> real \<Rightarrow> enemy \<Rightarrow> real" where
  "distance_to_player player_pos e =
     hypot (fst player_pos - enemy_x e) (snd player_pos - enemy_y e)"

definition move_toward_player :: "real \<times> real \<Rightarrow> enemy \<Rightarrow> enemy" where
  "move_toward_player player_pos e =
     (let angle = atan2 (snd player_pos - enemy_y e) (fst player_pos - enemy_x e);
          dx = 0.5 * cos angle;
          dy = 0.5 * sin angle;
          new_x = enemy_x e + dx;
          new_y = enemy_y e + dy;
          i = py_int (new_x / of_int TILE_SIZE);
          j = py_int (new_y / of_int TILE_SIZE)
      in if (0 \<le> i \<and> i < int (length (game_map ! 0))) \<and> (0 \<le> j \<and> j < int (length game_map))
            \<and> game_map ! nat j ! nat i = 0
         then e\<lparr>enemy_x := new_x, enemy_y := new_y\<rparr>
         else e)"

text \<open>
  What is drawn: \<^verbatim>\<open>screen.fill\<close> and \<^verbatim>\<open>pygame.draw.rect(screen, color, rect)\<close>, as the
  commands handed to the display in the order of emission.
\<close>

datatype draw_cmd =
    Fill "int \<times> int \<times> int"
  | Rect "real \<times> real \<times> real" "real \<times> real \<times> real \<times> real"

text \<open>\<^verbatim>\<open>Enemy.draw\<close>: the list of the commands it emits, none or one.\<close>

definition draw :: "real \<times> real \<Rightarrow> real \<Rightarrow> enemy \<Rightarrow> py_error + draw_cmd list" where
  "draw player_pos player_angle e =
     (if \<not> alive e then Inr []
      else
        (case line_of_sight (fst player_pos) (snd player_pos) (enemy_x e) (enemy_y e) of
           Inl err \<Rightarrow> Inl err
         | Inr los \<Rightarrow>
            if \<not> los then Inr []
            else
              (let dx = enemy_x e - fst player_pos;
                   dy = enemy_y e - snd player_pos;
                   distance = hypot dx dy;
                   angle = atan2 dy dx - player_angle
               in if - FOV / 2 < angle \<and> angle < FOV / 2
                  then
                    (case py_div PROJ_COEFF (distance + 0.0001) of
                       Inl err \<Rightarrow> Inl err
                     | Inr proj_height \<Rightarrow>
                        (let x = of_int (SCREEN_WIDTH div 2) + tan angle * DISTANCE
                                   - py_floordiv proj_height 4;
                             y = of_int (SCREEN_HEIGHT div 2) - py_floordiv proj_height 2
                         in Inr [Rect (255, 0, 0)
                                   (x, y, py_floordiv proj_height 2, proj_height)]))
                  else Inr [])))"


section \<open>Ray casting\<close>

text \<open>
  The body of the branch taken at a wall: the fish-eye correction, the wall height, the
  shade and the rectangle of the column.
\<close>

definition wall_column :: "real \<Rightarrow> int \<Rightarrow> real \<Rightarrow> int \<Rightarrow> py_error + draw_cmd list" where
  "wall_column angle ray cur_angle depth0 =
     (let depth = of_int depth0 * cos (angle - cur_angle)
      in case wall_height depth of
           Inl e \<Rightarrow> Inl e
         | Inr wh \<Rightarrow>
            (case py_div 255 (1 + depth * depth * 0.0001) of
               Inl e \<Rightarrow> Inl e
             | Inr color \<Rightarrow>
                Inr [Rect (color, color, color)
                       (of_int (ray * SCALE),
                        of_int (SCREEN_HEIGHT div 2) - py_floordiv wh 2,
                        of_int SCALE,
                        wh)]))"

text \<open>
  The unguarded read \<^verbatim>\<open>game_map[j][i]\<close>: the row is indexed first, then the column,
  and either indexing can raise.
\<close>

definition game_map_at :: "int \<Rightarrow> int \<Rightarrow> py_error + int" where
  "game_map_at j i =
     (case py_index game_map j of
        Inl e \<Rightarrow> Inl e
      | Inr row \<Rightarrow> py_index row i)"

text \<open>
  The depth march of one ray, over the depths still to be tried. The map is read as
  \<^verbatim>\<open>game_map[j][i]\<close> with no test of the indices before it. The first component of
  the result is not in the source: it lists, in order, the pairs \<open>(j, i)\<close> at which the
  march evaluates \<^verbatim>\<open>game_map[j][i]\<close>. The second is what the march does: it raises,
  or it emits the commands of the column (none when the depths are exhausted).
\<close>

fun march ::
  "real \<times> real \<Rightarrow> real \<Rightarrow> int \<Rightarrow> real \<Rightarrow> real \<Rightarrow> real \<Rightarrow> int list
     \<Rightarrow> (int \<times> int) list \<times> (py_error + draw_cmd list)" where
  "march pos angle ray cur_angle sin_a cos_a [] = ([], Inr [])"
| "march pos angle ray cur_angle sin_a cos_a (depth # rest) =
     (let x = fst pos + of_int depth * cos_a;
          y = snd pos + of_int depth * sin_a;
          i = py_int (x / of_int TILE_SIZE);
          j = py_int (y / of_int TILE_SIZE)
      in case game_map_at j i of
           Inl e \<Rightarrow> ([(j, i)], Inl e)
         | Inr cell \<Rightarrow>
            if cell = 1 then ([(j, i)], wall_column angle ray cur_angle depth)
            else
              (case march pos angle ray cur_angle sin_a cos_a rest of
                 (cells, r) \<Rightarrow> ((j, i) # cells, r)))"

definition cast_ray ::
  "real \<times> real \<Rightarrow> real \<Rightarrow> int \<Rightarrow> (int \<times> int) list \<times> (py_error + draw_cmd list)" where
  "cast_ray pos angle ray =
     (let start_angle = angle - FOV / 2;
          cur_angle = start_angle + of_int ray * DELTA_ANGLE;
          sin_a = sin cur_angle;
          cos_a = cos cur_angle
      in march pos angle ray cur_angle sin_a cos_a (py_range3 0 MAX_DEPTH 4))"

fun ray_loop :: "real \<times> real \<Rightarrow> real \<Rightarrow> int list \<Rightarrow> py_error + draw_cmd list" where
  "ray_loop pos angle [] = Inr []"
| "ray_loop pos angle (ray # rest) =
     (case snd (cast_ray pos angle ray) of
        Inl e \<Rightarrow> Inl e
      | Inr column \<Rightarrow>
         (case ray_loop pos angle rest of
            Inl e \<Rightarrow> Inl e
          | Inr columns \<Rightarrow> Inr (column @ columns)))"

definition ray_casting :: "real \<times> real \<Rightarrow> real \<Rightarrow> py_error + draw_cmd list" where
  "ray_casting pos angle = ray_loop pos angle (py_range2 0 NUM_RAYS)"

section \<open>The game loop\<close>

text \<open>
  The globals the loop changes, and what one iteration reads from pygame: whether a
  \<^verbatim>\<open>QUIT\<close> event is queued, and the keys held.
\<close>

record game =
  player_pos :: "real \<times> real"
  player_angle :: real
  enemies :: "enemy list"

record inputs =
  QUIT :: bool
  K_a :: bool
  K_d :: bool
  K_w :: bool
  K_s :: bool
  K_SPACE :: bool


definition key_a :: "game \<Rightarrow> game" where
  "key_a g = g\<lparr>player_angle := player_angle g - 0.03\<rparr>"

definition key_d :: "game \<Rightarrow> game" where
  "key_d g = g\<lparr>player_angle := player_angle g + 0.03\<rparr>"

definition key_w :: "game \<Rightarrow> game" where
  "key_w g =
     (let dx = player_speed * cos (player_angle g);
          dy = player_speed * sin (player_angle g);
          new_x = fst (player_pos g) + dx;
          new_y = snd (player_pos g) + dy
      in if can_move new_x new_y then g\<lparr>player_pos := (new_x, new_y)\<rparr> else g)"

definition key_s :: "game \<Rightarrow> game" where
  "key_s g =
     (let dx = player_speed * cos (player_angle g);
          dy = player_speed * sin (player_angle g);
          new_x = fst (player_pos g) - dx;
          new_y = snd (player_pos g) - dy
      in if can_move new_x new_y then g\<lparr>player_pos := (new_x, new_y)\<rparr> else g)"

text \<open>
  The body of the shooting loop for one enemy, and the loop. \<open>signed_angle_diff\<close> is
  the argument of \<^verbatim>\<open>abs\<close> in line 164 of the source.
\<close>

definition signed_angle_diff :: "real \<times> real \<Rightarrow> real \<Rightarrow> enemy \<Rightarrow> real" where
  "signed_angle_diff pos heading e =
     (let dx = enemy_x e - fst pos;
          dy = enemy_y e - snd pos;
          angle = atan2 dy dx
      in py_fmod (angle - heading + pi) (2 * pi) - pi)"

definition angle_diff :: "real \<times> real \<Rightarrow> real \<Rightarrow> enemy \<Rightarrow> real" where
  "angle_diff pos heading e = \<bar>signed_angle_diff pos heading e\<bar>"

definition shoot :: "real \<times> real \<Rightarrow> real \<Rightarrow> enemy \<Rightarrow> enemy" where
  "shoot pos heading e =
     (if alive e
      then if angle_diff pos heading e < 0.1 \<and> distance_to_player pos e < 300
           then e\<lparr>alive := False\<rparr>
           else e
      else e)"

definition key_space :: "game \<Rightarrow> game" where
  "key_space g = g\<lparr>enemies := map (shoot (player_pos g) (player_angle g)) (enemies g)\<rparr>"

text \<open>The loop over the enemies at the end of the iteration: move if alive, then draw.\<close>

definition enemy_step :: "real \<times> real \<Rightarrow> enemy \<Rightarrow> enemy" where
  "enemy_step pos e = (if alive e then move_toward_player pos e else e)"

fun enemy_loop ::
  "real \<times> real \<Rightarrow> real \<Rightarrow> enemy list \<Rightarrow> py_error + (enemy list \<times> draw_cmd list)" where
  "enemy_loop pos heading [] = Inr ([], [])"
| "enemy_loop pos heading (e # rest) =
     (let e' = enemy_step pos e
      in case draw pos heading e' of
           Inl err \<Rightarrow> Inl err
         | Inr sprite \<Rightarrow>
            (case enemy_loop pos heading rest of
               Inl err \<Rightarrow> Inl err
             | Inr (es, sprites) \<Rightarrow> Inr (e' # es, sprite @ sprites)))"

text \<open>
  One iteration of \<^verbatim>\<open>while True\<close>: the process exits on \<^verbatim>\<open>QUIT\<close>, dies on an
  exception, or goes on with the new globals, having emitted the frame's commands.
  \<open>handle_keys\<close> is the part from \<^verbatim>\<open>keys = pygame.key.get_pressed()\<close> to the end of
  the shooting block.
\<close>

datatype outcome = Exited | Raised py_error | Continue game "draw_cmd list"

definition handle_keys :: "inputs \<Rightarrow> game \<Rightarrow> game" where
  "handle_keys inp g =
     (let g1 = (if K_a inp then key_a g else g);
          g2 = (if K_d inp then key_d g1 else g1);
          g3 = (if K_w inp then key_w g2 else g2);
          g4 = (if K_s inp then key_s g3 else g3)
      in if K_SPACE inp then key_space g4 else g4)"

definition frame :: "inputs \<Rightarrow> game \<Rightarrow> outcome" where
  "frame inp g =
     (if QUIT inp then Exited
      else
        (let g5 = handle_keys inp g
         in case ray_casting (player_pos g5) (player_angle g5) of
              Inl e \<Rightarrow> Raised e
            | Inr walls \<Rightarrow>
               (case enemy_loop (player_pos g5) (player_angle g5) (enemies g5) of
                  Inl e \<Rightarrow> Raised e
                | Inr (es, sprites) \<Rightarrow>
                   Continue (g5\<lparr>enemies := es\<rparr>) (Fill (0, 0, 0) # walls @ sprites))))"

text \<open>
  The globals after a sequence of iterations, one input each, when every one of them
  goes on; and the states the program can be in at the head of the loop.
\<close>

fun run :: "inputs list \<Rightarrow> game \<Rightarrow> game option" where
  "run [] g = Some g"
| "run (inp # rest) g =
     (case frame inp g of
        Continue g' out \<Rightarrow> run rest g'
      | _ \<Rightarrow> None)"


section \<open>The move of the specification\<close>

text \<open>
  The specification's \<open>moveAlongHeading(sign)\<close>, in its words: the candidate position
  is \<open>pos + sign * speed * (cos heading, sin heading)\<close>; it is committed only if it is
  walkable, and the move is discarded otherwise. The source has no such function: it has
  the two blocks \<open>key_w\<close> and \<open>key_s\<close> above, compared with this one below.
\<close>

definition candidate :: "real \<Rightarrow> game \<Rightarrow> real \<times> real" where
  "candidate sign g =
     (fst (player_pos g) + sign * player_speed * cos (player_angle g),
      snd (player_pos g) + sign * player_speed * sin (player_angle g))"

definition moveAlongHeading :: "real \<Rightarrow> game \<Rightarrow> game" where
  "moveAlongHeading sign g =
     (if can_move (fst (candidate sign g)) (snd (candidate sign g))
      then g\<lparr>player_pos := candidate sign g\<rparr>
      else g)"

section \<open>Facts about the primitives and the map\<close>

lemma PROJ_COEFF_pos: "0 < PROJ_COEFF"
  by (simp add: PROJ_COEFF_def DISTANCE_def FOV_def NUM_RAYS_def TILE_SIZE_def tan_30)

lemma py_int_zero_iff: "py_int v = 0 \<longleftrightarrow> -1 < v \<and> v < 1"
  unfolding py_int_def by (auto simp: floor_eq_iff ceiling_eq_iff)

lemma py_int_ge: "1 \<le> n \<Longrightarrow> n \<le> py_int v \<longleftrightarrow> of_int n \<le> v"
  unfolding py_int_def by (auto simp: le_floor_iff le_ceiling_iff)

lemma py_int_le: "0 \<le> n \<Longrightarrow> py_int v \<le> n \<longleftrightarrow> v < of_int n + 1"
  unfolding py_int_def by (auto simp: floor_le_iff ceiling_le_iff)

lemma game_map_lengths: "length game_map = 8" "length (game_map ! 0) = 8"
  by (simp_all add: game_map_def)

lemma int_0_7:
  "0 \<le> (k::int) \<Longrightarrow> k < 8 \<Longrightarrow>
     k = 0 \<or> k = 1 \<or> k = 2 \<or> k = 3 \<or> k = 4 \<or> k = 5 \<or> k = 6 \<or> k = 7"
  by arith

text \<open>The outer ring of the map is wall: an empty cell has both indices from 1 to 6.\<close>

lemma game_map_ring:
  assumes "0 \<le> i" "i < 8" "0 \<le> j" "j < 8" "game_map ! nat j ! nat i = 0"
  shows "1 \<le> i \<and> i \<le> 6 \<and> 1 \<le> j \<and> j \<le> 6"
proof -
  from int_0_7[OF assms(1,2)] int_0_7[OF assms(3,4)] assms(5)
  show ?thesis by (auto simp: game_map_def)
qed

lemma can_move_iff:
  "can_move x y \<longleftrightarrow>
    (let i = py_int (x / 64); j = py_int (y / 64)
     in 0 \<le> i \<and> i < 8 \<and> 0 \<le> j \<and> j < 8 \<and> game_map ! nat j ! nat i = 0)"
  by (auto simp add: can_move_def Let_def game_map_lengths TILE_SIZE_def)

lemma can_move_interior:
  assumes "can_move x y"
  shows "64 \<le> x \<and> x < 448 \<and> 64 \<le> y \<and> y < 448"
proof -
  let ?i = "py_int (x / 64)" and ?j = "py_int (y / 64)"
  from assms have "0 \<le> ?i" "?i < 8" "0 \<le> ?j" "?j < 8" "game_map ! nat ?j ! nat ?i = 0"
    by (simp_all add: can_move_iff Let_def)
  from game_map_ring[OF this] have "1 \<le> ?i" "?i \<le> 6" "1 \<le> ?j" "?j \<le> 6" by simp_all
  then show ?thesis by (simp add: py_int_ge py_int_le)
qed

section \<open>Walkability outside the grid\<close>

text \<open>
  Claim C2. A point outside the grid (\<open>x < 0\<close>, or \<open>y < 0\<close>, or
  \<open>x \<ge> MAP_WIDTH * TILE_SIZE\<close>, or \<open>y \<ge> MAP_HEIGHT * TILE_SIZE\<close>) is not walkable:
  \<open>can_move\<close> is false there. The index is \<open>int(x / TILE_SIZE)\<close>, which truncates
  toward zero: for \<open>x\<close> strictly between \<open>-TILE_SIZE\<close> and 0 it is 0, where the floor
  is \<open>-1\<close>. Such a point is then looked up in column 0 (or row 0) of the map, which is
  wall throughout.
\<close>

theorem can_move_outside_grid:
  "(x < 0 \<or> y < 0 \<or> of_int (MAP_WIDTH * TILE_SIZE) \<le> x \<or> of_int (MAP_HEIGHT * TILE_SIZE) \<le> y
      \<longrightarrow> \<not> can_move x y)
   \<and> (- of_int TILE_SIZE < x \<and> x < 0
      \<longrightarrow> py_int (x / of_int TILE_SIZE) = 0 \<and> \<lfloor>x / of_int TILE_SIZE\<rfloor> = - 1)"
  using can_move_interior[of x y]
  by (auto simp: MAP_WIDTH_def MAP_HEIGHT_def TILE_SIZE_def py_int_zero_iff floor_eq_iff)

theorem can_move_outside_grid_witness:
  "(- 10 :: real) < 0 \<and> \<not> can_move (- 10) 96
   \<and> - of_int TILE_SIZE < (- 10 :: real)
   \<and> py_int (- 10 / of_int TILE_SIZE) = 0 \<and> \<lfloor>(- 10 :: real) / of_int TILE_SIZE\<rfloor> = - 1"
  using can_move_outside_grid[of "- 10" 96] by (simp add: TILE_SIZE_def)

section \<open>Monotonicity of the wall height\<close>

text \<open>
  Claim C9. The wall height \<open>PROJ_COEFF / (depth + 0.0001)\<close> does not increase with the
  corrected depth: for \<open>0 \<le> d1 \<le> d2\<close> both divisions succeed and the height at \<open>d2\<close>
  is at most the height at \<open>d1\<close>.
\<close>

theorem wall_height_antimono:
  "0 \<le> d1 \<Longrightarrow> d1 \<le> d2 \<Longrightarrow>
     \<exists>h1 h2. wall_height d1 = Inr h1 \<and> wall_height d2 = Inr h2 \<and> h2 \<le> h1"
  using PROJ_COEFF_pos by (simp add: wall_height_def py_div_def frac_le)

theorem wall_height_antimono_witness:
  "(0::real) \<le> 0 \<and> (0::real) \<le> 64
   \<and> (\<exists>h1 h2. wall_height 0 = Inr h1 \<and> wall_height 64 = Inr h2 \<and> h2 \<le> h1)"
  using wall_height_antimono[of 0 64] by simp

section \<open>Line of sight between near points\<close>

lemma hypot_self: "hypot 0 0 = 0" by (simp add: hypot_def)

lemma py_range2_empty: "n \<le> 1 \<Longrightarrow> py_range2 1 n = []"
  by (simp add: py_range2_def)

text \<open>
  Claim C10. \<open>line_of_sight\<close> from a point to itself returns \<open>True\<close>. More generally,
  when the number of steps \<open>int(distance / 4)\<close> is at most 1, which is the case exactly
  when the two points are less than 8 units apart, the loop's range \<open>range(1, steps)\<close>
  is empty: no sample is tested, the division by \<open>steps\<close> in the loop body is not
  reached, and the result is \<open>True\<close>, not an exception.
\<close>

theorem line_of_sight_near:
  "line_of_sight px py px py = Inr True
   \<and> (los_steps px py ex ey \<le> 1 \<longrightarrow>
        py_range2 1 (los_steps px py ex ey) = [] \<and> line_of_sight px py ex ey = Inr True)
   \<and> (los_steps px py ex ey \<le> 1 \<longleftrightarrow> hypot (ex - px) (ey - py) < 8)"
  by (simp add: line_of_sight_def Let_def los_steps_def py_range2_empty hypot_self py_int_le py_int_zero_iff)

theorem line_of_sight_near_witness:
  "los_steps 96 96 99 100 \<le> 1 \<and> py_range2 1 (los_steps 96 96 99 100) = []
    \<and> line_of_sight 96 96 99 100 = Inr True \<and> hypot (99 - 96) (100 - 96) < 8"
proof -
  have "hypot (99 - 96) (100 - 96) = sqrt (5\<^sup>2)" unfolding hypot_def by (simp add: power2_eq_square)
  then have h: "hypot (99 - 96) (100 - 96) < 8" by simp
  with line_of_sight_near[of 96 96 99 100] show ?thesis by simp
qed

section \<open>The player's move\<close>

text \<open>
  Claim C6. The block run while \<^verbatim>\<open>K_w\<close> is held is the specification's move with sign
  \<open>+1\<close>, and the block for \<^verbatim>\<open>K_s\<close> is the move with sign \<open>-1\<close>. The move sets the
  position to exactly the candidate \<open>pos + sign * speed * (cos heading, sin heading)\<close>
  when \<open>can_move\<close> holds of the candidate, and returns the state as it was when it does
  not. The heading and the enemies are the same after the move in both cases, and the
  move is a total function: it has no error to signal.
\<close>

theorem player_move:
  "key_w g = moveAlongHeading 1 g \<and> key_s g = moveAlongHeading (- 1) g
   \<and> (if can_move (fst (candidate sign g)) (snd (candidate sign g))
      then moveAlongHeading sign g = g\<lparr>player_pos := candidate sign g\<rparr>
      else moveAlongHeading sign g = g)
   \<and> candidate sign g =
       (fst (player_pos g) + sign * player_speed * cos (player_angle g),
        snd (player_pos g) + sign * player_speed * sin (player_angle g))
   \<and> player_angle (moveAlongHeading sign g) = player_angle g
   \<and> enemies (moveAlongHeading sign g) = enemies g"
  by (simp add: key_w_def key_s_def moveAlongHeading_def candidate_def Let_def)

section \<open>Shooting\<close>













lemma alive_shoot:
  "alive (shoot pos h e) \<longleftrightarrow>
     alive e \<and> \<not> (angle_diff pos h e < 0.1 \<and> distance_to_player pos e < 300)"
  by (simp add: shoot_def)




section \<open>Shooting through walls\<close>

lemma hypot_axis: "hypot a 0 = \<bar>a\<bar>"
  by (simp add: hypot_def flip: power2_eq_square)

text \<open>
  Claim C5. Whether the shooting loop's body leaves an enemy alive is a function of
  three things only: whether it was alive, the angular difference, and the distance.
  Line of sight is not consulted. With the player at \<open>(96, 160)\<close> facing along the
  x axis and an alive enemy at \<open>(224, 160)\<close>, both in empty cells with the wall cell of
  column 2 between them, \<open>line_of_sight\<close> is \<open>False\<close> and the enemy is shot all the
  same.
\<close>

theorem fire_ignores_walls:
  "(alive (shoot pos h e) \<longleftrightarrow>
      alive e \<and> \<not> (angle_diff pos h e < 0.1 \<and> distance_to_player pos e < 300))
   \<and> can_move 96 160 \<and> can_move 224 160
   \<and> line_of_sight 96 160 224 160 = Inr False
   \<and> alive (Enemy 224 160)
   \<and> \<not> alive (shoot (96, 160) 0 (Enemy 224 160))
   \<and> enemies (key_space \<lparr>player_pos = (96, 160), player_angle = 0, enemies = [Enemy 224 160]\<rparr>)
       = [\<lparr>enemy_x = 224, enemy_y = 160, alive = False\<rparr>]"
proof -
  have cm: "can_move 96 160 \<and> can_move 224 160"
    by (simp add: can_move_def py_int_def TILE_SIZE_def game_map_def)
  have st: "los_steps 96 160 224 160 = 32"
    by (simp add: los_steps_def hypot_axis py_int_def)
  have los: "line_of_sight 96 160 224 160 = Inr False"
    by (simp add: line_of_sight_def st py_range2_def Let_def py_div_def upto_rec1
        can_move_def py_int_def TILE_SIZE_def game_map_def)
  have sh: "\<not> alive (shoot (96, 160) 0 (Enemy 224 160))"
    by (simp add: shoot_def angle_diff_def signed_angle_diff_def distance_to_player_def
        Enemy_def atan2_def py_fmod_def hypot_def)
  have al: "alive (Enemy 224 160)" by (simp add: Enemy_def)
  have ks: "enemies (key_space \<lparr>player_pos = (96, 160), player_angle = 0, enemies = [Enemy 224 160]\<rparr>)
       = [\<lparr>enemy_x = 224, enemy_y = 160, alive = False\<rparr>]"
    using sh al by (simp add: key_space_def shoot_def Enemy_def split: if_splits)
  from cm los sh al ks alive_shoot[of pos h e] show ?thesis by blast
qed

section \<open>The depth march\<close>

text \<open>
  The march samples the ray every 4 units. From a point of an empty cell the next sample
  is at most 4 units away in each coordinate, and the empty cells are surrounded by a
  ring of wall cells 64 units thick: the march reads a wall cell before it can leave
  the grid.
\<close>

lemma game_map_row_length: "0 \<le> j \<Longrightarrow> j < 8 \<Longrightarrow> length (game_map ! nat j) = 8"
  using int_0_7[of j] by (auto simp: game_map_def)

lemma game_map_at_in_range:
  "0 \<le> i \<Longrightarrow> i < 8 \<Longrightarrow> 0 \<le> j \<Longrightarrow> j < 8 \<Longrightarrow> game_map_at j i = Inr (game_map ! nat j ! nat i)"
  by (simp add: game_map_at_def py_index_def game_map_lengths game_map_row_length)

lemma game_map_not_wall:
  assumes "0 \<le> i" "i < 8" "0 \<le> j" "j < 8" "game_map ! nat j ! nat i \<noteq> 1"
  shows "1 \<le> i \<and> i \<le> 6 \<and> 1 \<le> j \<and> j \<le> 6"
proof -
  from int_0_7[OF assms(1,2)] int_0_7[OF assms(3,4)] assms(5)
  show ?thesis by (auto simp: game_map_def)
qed

lemma py_int_tile_range: "0 \<le> v \<Longrightarrow> v < 512 \<Longrightarrow> 0 \<le> py_int (v / 64) \<and> py_int (v / 64) < 8"
  by (simp add: py_int_def floor_less_iff)

lemma py_int_tile_interior:
  "1 \<le> py_int (v / 64) \<Longrightarrow> py_int (v / 64) \<le> 6 \<Longrightarrow> 64 \<le> v \<and> v < 448"
  by (simp add: py_int_ge py_int_le)


lemma wall_column_Inr:
  assumes "0 \<le> d" "0 \<le> cos (angle - cur_angle)"
  shows "\<exists>cmd. wall_column angle ray cur_angle d = Inr [cmd]"
proof -
  let ?depth = "of_int d * cos (angle - cur_angle)"
  have d: "0 \<le> ?depth" using assms by simp
  then have "0 < ?depth + 0.0001" by (intro add_nonneg_pos) simp_all
  then have "?depth + 0.0001 \<noteq> 0" by simp
  moreover have "0 < 1 + ?depth * ?depth * 0.0001" by (intro add_pos_nonneg) simp_all
  then have "1 + ?depth * ?depth * 0.0001 \<noteq> 0" by simp
  ultimately show ?thesis
    by (simp add: wall_column_def wall_height_def py_div_def Let_def)
qed

lemma march_Cons_in_range:
  assumes "0 \<le> i" "i < 8" "0 \<le> j" "j < 8"
    and "i = py_int ((fst pos + of_int d * c) / 64)" "j = py_int ((snd pos + of_int d * s) / 64)"
  shows "march pos angle ray ca s c (d # ds) =
     (if game_map ! nat j ! nat i = 1 then ([(j, i)], wall_column angle ray ca d)
      else (case march pos angle ray ca s c ds of (cells, r) \<Rightarrow> ((j, i) # cells, r)))"
  using assms by (simp add: Let_def TILE_SIZE_def game_map_at_in_range)

lemma march_safe:
  assumes c: "\<bar>c\<bar> \<le> 1" and s: "\<bar>s\<bar> \<le> 1"
  shows "0 \<le> d0 \<Longrightarrow>
     60 \<le> fst pos + of_int d0 * c \<Longrightarrow> fst pos + of_int d0 * c < 452 \<Longrightarrow>
     60 \<le> snd pos + of_int d0 * s \<Longrightarrow> snd pos + of_int d0 * s < 452 \<Longrightarrow>
     list_all (\<lambda>(j, i). 0 \<le> i \<and> i < 8 \<and> 0 \<le> j \<and> j < 8)
        (fst (march pos angle ray ca s c (map (\<lambda>k. d0 + int k * 4) [0..<n])))
     \<and> (snd (march pos angle ray ca s c (map (\<lambda>k. d0 + int k * 4) [0..<n])) = Inr []
        \<or> (\<exists>d\<ge>0. snd (march pos angle ray ca s c (map (\<lambda>k. d0 + int k * 4) [0..<n]))
               = wall_column angle ray ca d))"
proof (induction n arbitrary: d0)
  case 0
  then show ?case by simp
next
  case (Suc n)
  let ?x = "fst pos + of_int d0 * c" and ?y = "snd pos + of_int d0 * s"
  let ?i = "py_int (?x / 64)" and ?j = "py_int (?y / 64)"
  let ?rest = "map (\<lambda>k. (d0 + 4) + int k * 4) [0..<n]"
  have ds: "map (\<lambda>k. d0 + int k * 4) [0..<Suc n] = d0 # ?rest"
    by (simp add: map_upt_Suc algebra_simps del: upt_Suc)
  have ri: "0 \<le> ?i \<and> ?i < 8" using Suc.prems by (intro py_int_tile_range) simp_all
  have rj: "0 \<le> ?j \<and> ?j < 8" using Suc.prems by (intro py_int_tile_range) simp_all
  have m: "march pos angle ray ca s c (d0 # ?rest) =
     (if game_map ! nat ?j ! nat ?i = 1 then ([(?j, ?i)], wall_column angle ray ca d0)
      else (case march pos angle ray ca s c ?rest of (cells, r) \<Rightarrow> ((?j, ?i) # cells, r)))"
    using ri rj by (intro march_Cons_in_range) simp_all
  show ?case
  proof (cases "game_map ! nat ?j ! nat ?i = 1")
    case True
    with m ri rj Suc.prems(1) show ?thesis unfolding ds by auto
  next
    case False
    with ri rj have "1 \<le> ?i \<and> ?i \<le> 6 \<and> 1 \<le> ?j \<and> ?j \<le> 6"
      by (intro game_map_not_wall) simp_all
    then have int: "64 \<le> ?x \<and> ?x < 448" "64 \<le> ?y \<and> ?y < 448"
      using py_int_tile_interior by blast+
    have nx: "fst pos + of_int (d0 + 4) * c = ?x + 4 * c" "snd pos + of_int (d0 + 4) * s = ?y + 4 * s"
      by (simp_all add: algebra_simps)
    have bx: "\<bar>4 * c\<bar> \<le> 4" "\<bar>4 * s\<bar> \<le> 4" using c s by simp_all
    have p: "0 \<le> d0 + 4" "60 \<le> fst pos + of_int (d0 + 4) * c" "fst pos + of_int (d0 + 4) * c < 452"
      "60 \<le> snd pos + of_int (d0 + 4) * s" "snd pos + of_int (d0 + 4) * s < 452"
      using Suc.prems(1) int bx unfolding nx by linarith+
    obtain cells r where mr: "march pos angle ray ca s c ?rest = (cells, r)"
      by (cases "march pos angle ray ca s c ?rest")
    from Suc.IH[OF p] mr
    have ih: "list_all (\<lambda>(j, i). 0 \<le> i \<and> i < 8 \<and> 0 \<le> j \<and> j < 8) cells"
      "r = Inr [] \<or> (\<exists>d\<ge>0. r = wall_column angle ray ca d)"
      by simp_all
    have "march pos angle ray ca s c (d0 # ?rest) = ((?j, ?i) # cells, r)"
      using m False mr by simp
    with ih ri rj show ?thesis unfolding ds by simp

  qed
qed


lemma march_shape:
  "case march pos angle ray ca s c ds of (cells, r) \<Rightarrow>
     length cells \<le> length ds
     \<and> list_all (\<lambda>(j, i). \<exists>v. game_map_at j i = Inr v \<and> v \<noteq> 1) (butlast cells)
     \<and> (ds \<noteq> [] \<longrightarrow> cells \<noteq> []
          \<and> (case game_map_at (fst (last cells)) (snd (last cells)) of
                Inl e \<Rightarrow> r = Inl e
              | Inr v \<Rightarrow>
                 if v = 1 then (\<exists>d\<in>set ds. r = wall_column angle ray ca d)
                 else length cells = length ds \<and> r = Inr []))"
proof (induction ds)
  case Nil
  then show ?case by simp
next
  case (Cons d ds)
  let ?i = "py_int ((fst pos + of_int d * c) / of_int TILE_SIZE)"
  let ?j = "py_int ((snd pos + of_int d * s) / of_int TILE_SIZE)"
  obtain cells r where mr: "march pos angle ray ca s c ds = (cells, r)"
    by (cases "march pos angle ray ca s c ds")
  show ?case
  proof (cases "game_map_at ?j ?i")
    case (Inl e)
    then show ?thesis by (simp add: Let_def)
  next
    case (Inr v)
    show ?thesis
    proof (cases "v = 1")
      case True
      with Inr show ?thesis by (simp add: Let_def)
    next
      case False
      with Inr mr have m: "march pos angle ray ca s c (d # ds) = ((?j, ?i) # cells, r)"
        by (simp add: Let_def)
      show ?thesis
      proof (cases "ds = []")
        case True
        with mr have "cells = []" "r = Inr []" by simp_all
        with m Inr False True show ?thesis by simp
      next
        case ne: False
        with Cons.IH mr have ih: "length cells \<le> length ds"
          "list_all (\<lambda>(j, i). \<exists>v. game_map_at j i = Inr v \<and> v \<noteq> 1) (butlast cells)"
          "cells \<noteq> []"
          "(case game_map_at (fst (last cells)) (snd (last cells)) of
                Inl e \<Rightarrow> r = Inl e
              | Inr v \<Rightarrow>
                 if v = 1 then (\<exists>d\<in>set ds. r = wall_column angle ray ca d)
                 else length cells = length ds \<and> r = Inr [])"
          by simp_all
        from ih(4) have "(case game_map_at (fst (last cells)) (snd (last cells)) of
                Inl e \<Rightarrow> r = Inl e
              | Inr v \<Rightarrow>
                 if v = 1 then (\<exists>d'\<in>set (d # ds). r = wall_column angle ray ca d')
                 else length ((?j, ?i) # cells) = length (d # ds) \<and> r = Inr [])"
          by (auto split: sum.splits)
        with ih(1,2,3) Inr False show ?thesis unfolding m by simp
      qed
    qed
  qed
qed

lemma depths_eq: "py_range3 0 MAX_DEPTH 4 = map (\<lambda>k. 0 + int k * 4) [0..<200]"
  by (simp add: py_range3_def MAX_DEPTH_def)

lemma depths_nonneg: "d \<in> set (py_range3 0 MAX_DEPTH 4) \<Longrightarrow> 0 \<le> d"
  by (auto simp: py_range3_def)

lemma ray_cos_nonneg:
  assumes "0 \<le> ray" "ray < NUM_RAYS"
  shows "0 \<le> cos (angle - (angle - FOV / 2 + of_int ray * DELTA_ANGLE))"
proof -
  define q :: real where "q = of_int ray * (pi / 720)"
  have r: "0 \<le> (of_int ray :: real)" "(of_int ray :: real) < 240"
    using assms by (simp_all add: NUM_RAYS_def)
  have q0: "0 \<le> q" unfolding q_def using r by simp
  have "q < 240 * (pi / 720)"
    unfolding q_def using r by (intro mult_strict_right_mono) simp_all
  then have q1: "q < pi / 3" by simp
  have t: "angle - (angle - FOV / 2 + of_int ray * DELTA_ANGLE) = pi / 6 - q"
    by (simp add: q_def DELTA_ANGLE_def FOV_def NUM_RAYS_def)
  have "- (pi / 2) < pi / 6 - q" "pi / 6 - q < pi / 2"
    using q0 q1 pi_gt_zero by linarith+
  then have "0 < cos (pi / 6 - q)" by (rule cos_gt_zero_pi)
  with t show ?thesis by simp
qed

lemma cast_ray_in_grid:
  assumes "can_move (fst pos) (snd pos)"
  shows "list_all (\<lambda>(j, i). 0 \<le> i \<and> i < 8 \<and> 0 \<le> j \<and> j < 8) (fst (cast_ray pos angle ray))"
proof -
  from can_move_interior[OF assms]
  have "60 \<le> fst pos + of_int 0 * cos (angle - FOV / 2 + of_int ray * DELTA_ANGLE)"
       "fst pos + of_int 0 * cos (angle - FOV / 2 + of_int ray * DELTA_ANGLE) < 452"
       "60 \<le> snd pos + of_int 0 * sin (angle - FOV / 2 + of_int ray * DELTA_ANGLE)"
       "snd pos + of_int 0 * sin (angle - FOV / 2 + of_int ray * DELTA_ANGLE) < 452"
    by simp_all
  from march_safe[OF abs_cos_le_one abs_sin_le_one order_refl this, of angle ray _ 200]
  show ?thesis by (simp add: cast_ray_def Let_def depths_eq)
qed


lemma cast_ray_shape:
  "case cast_ray pos angle ray of (cells, r) \<Rightarrow>
     length cells \<le> 200 \<and> cells \<noteq> []
     \<and> list_all (\<lambda>(j, i). \<exists>v. game_map_at j i = Inr v \<and> v \<noteq> 1) (butlast cells)
     \<and> (case game_map_at (fst (last cells)) (snd (last cells)) of
           Inl e \<Rightarrow> r = Inl e
         | Inr v \<Rightarrow>
            if v = 1
            then (\<exists>d\<ge>0. r = wall_column angle ray (angle - FOV / 2 + of_int ray * DELTA_ANGLE) d)
            else length cells = 200 \<and> r = Inr [])"
proof -
  let ?ca = "angle - FOV / 2 + of_int ray * DELTA_ANGLE"
  let ?ds = "py_range3 0 MAX_DEPTH 4"
  obtain cells r where mr: "march pos angle ray ?ca (sin ?ca) (cos ?ca) ?ds = (cells, r)"
    by (cases "march pos angle ray ?ca (sin ?ca) (cos ?ca) ?ds")
  have len: "length ?ds = 200" "?ds \<noteq> []" by (simp_all add: depths_eq)
  have ms: "length cells \<le> length ?ds
     \<and> list_all (\<lambda>(j, i). \<exists>v. game_map_at j i = Inr v \<and> v \<noteq> 1) (butlast cells)
     \<and> (?ds \<noteq> [] \<longrightarrow> cells \<noteq> []
          \<and> (case game_map_at (fst (last cells)) (snd (last cells)) of
                Inl e \<Rightarrow> r = Inl e
              | Inr v \<Rightarrow>
                 if v = 1 then (\<exists>d\<in>set ?ds. r = wall_column angle ray ?ca d)
                 else length cells = length ?ds \<and> r = Inr []))"
    using march_shape[where pos=pos and angle=angle and ray=ray and ca="?ca"
        and s="sin ?ca" and c="cos ?ca" and ds="?ds"]
    unfolding mr prod.case .
  from ms len(2) have sh: "length cells \<le> length ?ds" "cells \<noteq> []"
     "list_all (\<lambda>(j, i). \<exists>v. game_map_at j i = Inr v \<and> v \<noteq> 1) (butlast cells)"
     "(case game_map_at (fst (last cells)) (snd (last cells)) of
                Inl e \<Rightarrow> r = Inl e
              | Inr v \<Rightarrow>
                 if v = 1 then (\<exists>d\<in>set ?ds. r = wall_column angle ray ?ca d)
                 else length cells = length ?ds \<and> r = Inr [])"
    by blast+
  from sh(4) have "(case game_map_at (fst (last cells)) (snd (last cells)) of
           Inl e \<Rightarrow> r = Inl e
         | Inr v \<Rightarrow>
            if v = 1 then (\<exists>d\<ge>0. r = wall_column angle ray ?ca d)
            else length cells = 200 \<and> r = Inr [])"
    using depths_nonneg len(1) by (fastforce split: sum.splits)
  with sh(1,2,3) mr len(1) show ?thesis by (simp add: cast_ray_def Let_def)
qed

lemma cells_last_in_grid:
  "cells \<noteq> [] \<Longrightarrow> list_all (\<lambda>(j, i). 0 \<le> i \<and> i < 8 \<and> 0 \<le> j \<and> j < 8) cells \<Longrightarrow>
     0 \<le> snd (last cells) \<and> snd (last cells) < 8 \<and> 0 \<le> fst (last cells) \<and> fst (last cells) < 8"
  by (induction cells) (auto split: if_splits)

lemma cast_ray_from_empty_cell:
  assumes cm: "can_move (fst pos) (snd pos)" and ray: "0 \<le> ray" "ray < NUM_RAYS"
  shows "case cast_ray pos angle ray of (cells, r) \<Rightarrow>
     (game_map_at (fst (last cells)) (snd (last cells)) = Inr 1 \<and> (\<exists>cmd. r = Inr [cmd]))
     \<or> (\<exists>v. game_map_at (fst (last cells)) (snd (last cells)) = Inr v \<and> v \<noteq> 1
            \<and> length cells = 200 \<and> r = Inr [])"
proof -
  let ?ca = "angle - FOV / 2 + of_int ray * DELTA_ANGLE"
  obtain cells r where cr: "cast_ray pos angle ray = (cells, r)"
    by (cases "cast_ray pos angle ray")
  from cast_ray_shape[where pos=pos and angle=angle and ray=ray] cr
  have sh: "cells \<noteq> []"
     "(case game_map_at (fst (last cells)) (snd (last cells)) of
           Inl e \<Rightarrow> r = Inl e
         | Inr v \<Rightarrow>
            if v = 1 then (\<exists>d\<ge>0. r = wall_column angle ray ?ca d)
            else length cells = 200 \<and> r = Inr [])"
    by simp_all
  from cast_ray_in_grid[OF cm, where angle=angle and ray=ray] cr
  have "list_all (\<lambda>(j, i). 0 \<le> i \<and> i < 8 \<and> 0 \<le> j \<and> j < 8) cells" by simp
  from cells_last_in_grid[OF sh(1) this]
  obtain v where v: "game_map_at (fst (last cells)) (snd (last cells)) = Inr v"
    using game_map_at_in_range by blast
  show ?thesis
  proof (cases "v = 1")
    case True
    with sh(2) v obtain d where d: "0 \<le> d" "r = wall_column angle ray ?ca d" by auto
    have cs: "0 \<le> cos (angle - ?ca)" by (rule ray_cos_nonneg[OF ray])
    from wall_column_Inr[OF d(1) cs, where ray=ray] d(2)
    obtain cmd where "r = Inr [cmd]" by auto
    with True v cr show ?thesis by simp
  next
    case False
    with sh(2) v cr show ?thesis by simp
  qed
qed

lemma cast_ray_Inr:
  assumes "can_move (fst pos) (snd pos)" "0 \<le> ray" "ray < NUM_RAYS"
  shows "\<exists>column. snd (cast_ray pos angle ray) = Inr column"
  using cast_ray_from_empty_cell[OF assms, where angle=angle]
  by (cases "cast_ray pos angle ray") auto

lemma ray_loop_Inr:
  assumes "can_move (fst pos) (snd pos)"
  shows "(\<forall>ray\<in>set rays. 0 \<le> ray \<and> ray < NUM_RAYS) \<Longrightarrow> \<exists>columns. ray_loop pos angle rays = Inr columns"
proof (induction rays)
  case Nil
  then show ?case by simp
next
  case (Cons ray rays)
  then obtain columns where "ray_loop pos angle rays = Inr columns" by auto
  moreover obtain column where "snd (cast_ray pos angle ray) = Inr column"
    using cast_ray_Inr[OF assms, where ray=ray and angle=angle] Cons.prems by auto
  ultimately show ?case by simp
qed

lemma ray_casting_Inr:
  assumes "can_move (fst pos) (snd pos)"
  shows "\<exists>walls. ray_casting pos angle = Inr walls"
  unfolding ray_casting_def
  by (rule ray_loop_Inr[OF assms]) (simp add: py_range2_def NUM_RAYS_def)












section \<open>One iteration of the game loop\<close>

text \<open>
  Neither \<open>line_of_sight\<close> nor \<open>draw\<close> raises, and an iteration that starts with the
  player in an empty cell and no \<^verbatim>\<open>QUIT\<close> event goes on to the next one.
\<close>

lemma los_loop_Inr:
  "steps \<noteq> 0 \<Longrightarrow> \<exists>b. los_loop px py dx dy steps xs = Inr b"
  by (induction xs) (auto simp: py_div_def Let_def)

lemma py_range2_nonempty: "py_range2 1 n \<noteq> [] \<Longrightarrow> n \<noteq> 0"
  by (auto simp: py_range2_def)

lemma line_of_sight_Inr: "\<exists>b. line_of_sight px py ex ey = Inr b"
proof (cases "py_range2 1 (los_steps px py ex ey) = []")
  case True
  then have "line_of_sight px py ex ey = Inr True" by (simp add: line_of_sight_def Let_def)
  then show ?thesis by blast
next
  case False
  then have "los_steps px py ex ey \<noteq> 0" by (rule py_range2_nonempty)
  from los_loop_Inr[OF this] show ?thesis by (simp add: line_of_sight_def Let_def)
qed

lemma hypot_nonneg: "0 \<le> hypot a b"
  by (simp add: hypot_def)

lemma draw_Inr: "\<exists>cmds. draw pos h e = Inr cmds"
proof -
  obtain b where b: "line_of_sight (fst pos) (snd pos) (enemy_x e) (enemy_y e) = Inr b"
    using line_of_sight_Inr by blast
  have "0 < hypot (enemy_x e - fst pos) (enemy_y e - snd pos) + 0.0001"
    by (intro add_nonneg_pos hypot_nonneg) simp
  then have "hypot (enemy_x e - fst pos) (enemy_y e - snd pos) + 0.0001 \<noteq> 0" by simp
  with b show ?thesis by (simp add: draw_def Let_def py_div_def)
qed

lemma draw_dead: "\<not> alive e \<Longrightarrow> draw pos h e = Inr []"
  by (simp add: draw_def)

lemma enemy_loop_Inr:
  "\<exists>sprites. enemy_loop pos h es = Inr (map (enemy_step pos) es, sprites)"
proof (induction es)
  case Nil
  then show ?case by simp
next
  case (Cons e es)
  then obtain sprites where "enemy_loop pos h es = Inr (map (enemy_step pos) es, sprites)" by blast
  moreover obtain cmds where "draw pos h (enemy_step pos e) = Inr cmds"
    using draw_Inr by blast
  ultimately show ?case by (simp add: Let_def)
qed

lemma move_toward_player_cases:
  "move_toward_player pos e = e
   \<or> (can_move (enemy_x (move_toward_player pos e)) (enemy_y (move_toward_player pos e))
      \<and> alive (move_toward_player pos e) = alive e)"
  by (simp add: move_toward_player_def can_move_def Let_def)

lemma enemy_step_cases:
  "enemy_step pos e = e
   \<or> (can_move (enemy_x (enemy_step pos e)) (enemy_y (enemy_step pos e))
      \<and> alive (enemy_step pos e) = alive e)"
  using move_toward_player_cases[of pos e] by (auto simp: enemy_step_def)

lemma enemy_step_dead: "\<not> alive e \<Longrightarrow> enemy_step pos e = e"
  by (simp add: enemy_step_def)

lemma shoot_dead: "\<not> alive e \<Longrightarrow> shoot pos h e = e"
  by (simp add: shoot_def)

lemma shoot_position: "enemy_x (shoot pos h e) = enemy_x e \<and> enemy_y (shoot pos h e) = enemy_y e"
  by (simp add: shoot_def)

lemma shoot_alive: "alive (shoot pos h e) \<Longrightarrow> alive e"
  by (simp add: shoot_def split: if_splits)

lemma key_w_pos:
  "player_pos (key_w g) = player_pos g
   \<or> can_move (fst (player_pos (key_w g))) (snd (player_pos (key_w g)))"
  by (simp add: key_w_def Let_def)

lemma key_s_pos:
  "player_pos (key_s g) = player_pos g
   \<or> can_move (fst (player_pos (key_s g))) (snd (player_pos (key_s g)))"
  by (simp add: key_s_def Let_def)

lemma key_simps:
  "player_pos (key_a g) = player_pos g" "enemies (key_a g) = enemies g"
  "player_pos (key_d g) = player_pos g" "enemies (key_d g) = enemies g"
  "enemies (key_w g) = enemies g" "enemies (key_s g) = enemies g"
  "player_pos (key_space g) = player_pos g" "player_angle (key_space g) = player_angle g"
  "enemies (key_space g) = map (shoot (player_pos g) (player_angle g)) (enemies g)"
  by (simp_all add: key_a_def key_d_def key_w_def key_s_def key_space_def Let_def)

lemma handle_keys_pos:
  "player_pos (handle_keys inp g) = player_pos g
   \<or> can_move (fst (player_pos (handle_keys inp g))) (snd (player_pos (handle_keys inp g)))"
proof -
  let ?g1 = "if K_a inp then key_a g else g"
  let ?g2 = "if K_d inp then key_d ?g1 else ?g1"
  let ?g3 = "if K_w inp then key_w ?g2 else ?g2"
  let ?g4 = "if K_s inp then key_s ?g3 else ?g3"
  have 2: "player_pos ?g2 = player_pos g" by (simp add: key_simps)
  have 3: "player_pos ?g3 = player_pos g \<or> can_move (fst (player_pos ?g3)) (snd (player_pos ?g3))"
    using key_w_pos[of ?g2] 2 by (cases "K_w inp") auto
  have 4: "player_pos ?g4 = player_pos ?g3 \<or> can_move (fst (player_pos ?g4)) (snd (player_pos ?g4))"
    using key_s_pos[of ?g3] by (cases "K_s inp") auto
  have 5: "player_pos (handle_keys inp g) = player_pos ?g4"
    by (simp add: handle_keys_def Let_def key_simps)
  from 3 4 5 show ?thesis by metis
qed

lemma handle_keys_enemies:
  "enemies (handle_keys inp g) = enemies g
   \<or> (\<exists>pos h. enemies (handle_keys inp g) = map (shoot pos h) (enemies g))"
proof -
  let ?g1 = "if K_a inp then key_a g else g"
  let ?g2 = "if K_d inp then key_d ?g1 else ?g1"
  let ?g3 = "if K_w inp then key_w ?g2 else ?g2"
  let ?g4 = "if K_s inp then key_s ?g3 else ?g3"
  have 4: "enemies ?g4 = enemies g" by (simp add: key_simps)
  have 5: "handle_keys inp g = (if K_SPACE inp then key_space ?g4 else ?g4)"
    by (simp add: handle_keys_def Let_def)
  show ?thesis
  proof (cases "K_SPACE inp")
    case True
    with 5 have "enemies (handle_keys inp g)
        = map (shoot (player_pos ?g4) (player_angle ?g4)) (enemies ?g4)"
      by (simp only: key_simps if_True)
    with 4 show ?thesis by metis
  next
    case False
    with 4 5 show ?thesis by simp
  qed
qed

lemma frame_Continue_iff:
  "frame inp g = Continue g' out \<Longrightarrow>
     \<not> QUIT inp \<and>
     g' = (handle_keys inp g)\<lparr>enemies :=
            map (enemy_step (player_pos (handle_keys inp g))) (enemies (handle_keys inp g))\<rparr>"
proof -
  assume a: "frame inp g = Continue g' out"
  let ?g5 = "handle_keys inp g"
  obtain sprites where el: "enemy_loop (player_pos ?g5) (player_angle ?g5) (enemies ?g5)
      = Inr (map (enemy_step (player_pos ?g5)) (enemies ?g5), sprites)"
    using enemy_loop_Inr by blast
  from a el show ?thesis
    by (auto simp: frame_def Let_def split: if_splits sum.splits)
qed

lemma frame_Continue:
  assumes "\<not> QUIT inp" "can_move (fst (player_pos g)) (snd (player_pos g))"
  shows "\<exists>g' out. frame inp g = Continue g' out"
proof -
  let ?g5 = "handle_keys inp g"
  have "can_move (fst (player_pos ?g5)) (snd (player_pos ?g5))"
    using handle_keys_pos[of inp g] assms(2) by auto
  then obtain walls where w: "ray_casting (player_pos ?g5) (player_angle ?g5) = Inr walls"
    using ray_casting_Inr by blast
  obtain sprites where el: "enemy_loop (player_pos ?g5) (player_angle ?g5) (enemies ?g5)
      = Inr (map (enemy_step (player_pos ?g5)) (enemies ?g5), sprites)"
    using enemy_loop_Inr by blast
  from assms(1) w el show ?thesis by (simp add: frame_def Let_def)
qed


lemma frame_player_pos:
  assumes "frame inp g = Continue g' out"
  shows "player_pos g' = player_pos g \<or> can_move (fst (player_pos g')) (snd (player_pos g'))"
proof -
  from frame_Continue_iff[OF assms]
  have "player_pos g' = player_pos (handle_keys inp g)" by simp
  with handle_keys_pos[of inp g] show ?thesis by simp
qed

lemma frame_enemy:
  assumes f: "frame inp g = Continue g' out" and k: "k < length (enemies g)"
  shows "length (enemies g') = length (enemies g)
     \<and> ((enemy_x (enemies g' ! k) = enemy_x (enemies g ! k)
          \<and> enemy_y (enemies g' ! k) = enemy_y (enemies g ! k))
        \<or> can_move (enemy_x (enemies g' ! k)) (enemy_y (enemies g' ! k)))
     \<and> (alive (enemies g' ! k) \<longrightarrow> alive (enemies g ! k))
     \<and> (\<not> alive (enemies g ! k) \<longrightarrow> enemies g' ! k = enemies g ! k)"
proof -
  let ?g5 = "handle_keys inp g"
  let ?e = "enemies g ! k"
  from frame_Continue_iff[OF f]
  have g': "enemies g' = map (enemy_step (player_pos ?g5)) (enemies ?g5)" by simp
  have "length (enemies ?g5) = length (enemies g)
      \<and> (enemies ?g5 ! k = ?e \<or> (\<exists>pos h. enemies ?g5 ! k = shoot pos h ?e))"
  proof -
    from handle_keys_enemies[of inp g]
    consider "enemies ?g5 = enemies g"
      | pos h where "enemies ?g5 = map (shoot pos h) (enemies g)"
      by blast
    then show ?thesis
    proof cases
      case 1
      then show ?thesis by simp
    next
      case 2
      with k have "length (enemies ?g5) = length (enemies g)"
        "enemies ?g5 ! k = shoot pos h ?e" by simp_all
      then show ?thesis by blast
    qed
  qed
  then have l5: "length (enemies ?g5) = length (enemies g)"
    and e5: "enemies ?g5 ! k = ?e \<or> (\<exists>pos h. enemies ?g5 ! k = shoot pos h ?e)"
    by blast+
  from g' l5 k have ek: "enemies g' ! k = enemy_step (player_pos ?g5) (enemies ?g5 ! k)"
    and len: "length (enemies g') = length (enemies g)"
    by simp_all
  have 5: "enemy_x (enemies ?g5 ! k) = enemy_x ?e \<and> enemy_y (enemies ?g5 ! k) = enemy_y ?e
      \<and> (alive (enemies ?g5 ! k) \<longrightarrow> alive ?e)
      \<and> (\<not> alive ?e \<longrightarrow> enemies ?g5 ! k = ?e)"
  proof -
    from e5 consider "enemies ?g5 ! k = ?e" | pos h where "enemies ?g5 ! k = shoot pos h ?e"
      by blast
    then show ?thesis
    proof cases
      case 1
      then show ?thesis by simp
    next
      case 2
      with shoot_position[of pos h ?e] shoot_alive[of pos h ?e] shoot_dead[of ?e pos h]
      show ?thesis by simp
    qed
  qed
  let ?e5 = "enemies ?g5 ! k"
  let ?e' = "enemy_step (player_pos ?g5) ?e5"
  have dead: "\<not> alive ?e \<longrightarrow> ?e' = ?e"
  proof
    assume d: "\<not> alive ?e"
    with 5 have "?e5 = ?e" by blast
    with d enemy_step_dead[of ?e "player_pos ?g5"] show "?e' = ?e" by simp
  qed
  from enemy_step_cases[of "player_pos ?g5" ?e5]
  have pos: "(enemy_x ?e' = enemy_x ?e \<and> enemy_y ?e' = enemy_y ?e)
      \<or> can_move (enemy_x ?e') (enemy_y ?e')"
    and al: "alive ?e' \<longrightarrow> alive ?e"
    using 5 by metis+
  from len pos al dead show ?thesis unfolding ek by blast
qed

section \<open>Positions and walls\<close>






section \<open>Dead enemies\<close>

lemma run_dead:
  "run inps g = Some g' \<Longrightarrow> k < length (enemies g) \<Longrightarrow> \<not> alive (enemies g ! k) \<Longrightarrow>
     k < length (enemies g') \<and> enemies g' ! k = enemies g ! k"
proof (induction inps arbitrary: g)
  case Nil
  then show ?case by simp
next
  case (Cons inp inps)
  from Cons.prems(1) obtain g1 out where f: "frame inp g = Continue g1 out"
    and r: "run inps g1 = Some g'"
    by (auto split: outcome.splits)
  from frame_enemy[OF f Cons.prems(2)] Cons.prems(2,3)
  have 1: "k < length (enemies g1)" "enemies g1 ! k = enemies g ! k" by simp_all
  with Cons.prems(3) have "\<not> alive (enemies g1 ! k)" by simp
  from Cons.IH[OF r 1(1) this] 1(2) show ?case by simp
qed

lemma run_Some:
  "can_move (fst (player_pos g)) (snd (player_pos g)) \<Longrightarrow> list_all (\<lambda>inp. \<not> QUIT inp) inps \<Longrightarrow>
     \<exists>g'. run inps g = Some g'"
proof (induction inps arbitrary: g)
  case Nil
  then show ?case by simp
next
  case (Cons inp inps)
  then obtain g1 out where f: "frame inp g = Continue g1 out"
    using frame_Continue[of inp g] by auto
  from frame_player_pos[OF f] Cons.prems(1)
  have "can_move (fst (player_pos g1)) (snd (player_pos g1))" by auto
  from Cons.IH[OF this] Cons.prems(2) f show ?case by simp
qed

text \<open>
  Claim C7. An enemy that is not alive stays so: after any sequence of iterations of the
  loop that go on, with any inputs, the enemy at the same place in the roster is the same
  record: its \<open>alive\<close> flag is still false and its position is unchanged. On it the
  shooting body and the movement step are the identity (the pursuit is skipped), and
  \<open>draw\<close> emits no command, whatever the pose of the player.
\<close>

theorem dead_is_terminal:
  "run inps g = Some g' \<Longrightarrow> k < length (enemies g) \<Longrightarrow> \<not> alive (enemies g ! k) \<Longrightarrow>
     k < length (enemies g')
     \<and> \<not> alive (enemies g' ! k)
     \<and> enemies g' ! k = enemies g ! k
     \<and> shoot pos h (enemies g' ! k) = enemies g' ! k
     \<and> enemy_step pos (enemies g' ! k) = enemies g' ! k
     \<and> draw pos h (enemies g' ! k) = Inr []"
  using run_dead[of inps g g' k] shoot_dead enemy_step_dead draw_dead by auto

theorem dead_is_terminal_witness:
  "\<exists>g'. run [\<lparr>QUIT = False, K_a = False, K_d = True, K_w = True, K_s = False, K_SPACE = True\<rparr>,
              \<lparr>QUIT = False, K_a = False, K_d = False, K_w = False, K_s = False, K_SPACE = True\<rparr>]
            \<lparr>player_pos = (96, 96), player_angle = 0,
             enemies = [\<lparr>enemy_x = 192, enemy_y = 384, alive = False\<rparr>]\<rparr> = Some g'
     \<and> enemies g' ! 0 = \<lparr>enemy_x = 192, enemy_y = 384, alive = False\<rparr>
     \<and> draw (player_pos g') (player_angle g') (enemies g' ! 0) = Inr []"
proof -
  let ?inps = "[\<lparr>QUIT = False, K_a = False, K_d = True, K_w = True, K_s = False, K_SPACE = True\<rparr>,
              \<lparr>QUIT = False, K_a = False, K_d = False, K_w = False, K_s = False, K_SPACE = True\<rparr>]"
  let ?g = "\<lparr>player_pos = (96, 96), player_angle = 0,
             enemies = [\<lparr>enemy_x = 192, enemy_y = 384, alive = False\<rparr>]\<rparr>"
  have "can_move (fst (player_pos ?g)) (snd (player_pos ?g))"
    by (simp add: can_move_def py_int_def TILE_SIZE_def game_map_def)
  then obtain g' where r: "run ?inps ?g = Some g'"
    using run_Some[of ?g ?inps] by auto
  have k: "0 < length (enemies ?g)" "\<not> alive (enemies ?g ! 0)" by simp_all
  from dead_is_terminal[OF r k, of "player_pos g'" "player_angle g'"] r
  show ?thesis by auto
qed

end
